theory Spec2Isabelle
  imports Main "HOL-Library.Sublist"
begin

section \<open>The package descriptor \<open>setup.py\<close> of Turbine\<close>

text \<open>
  The script does two things in order: it reads \<^verbatim>\<open>README.md\<close> and rewrites the
  link targets in it, and then it calls \<^verbatim>\<open>setuptools.setup\<close> once with a fixed list of
  keyword arguments. The model follows that order. The file system is a map from paths to
  file contents, a failing \<^verbatim>\<open>open\<close> is an error value, and the call of
  \<^verbatim>\<open>setuptools.setup\<close> is the list of its keyword arguments, in the order of the source.
\<close>

subsection \<open>Reading the file\<close>

datatype py_error = FileNotFoundError

type_synonym filesystem = "string \<rightharpoonup> string"

text \<open>\<^verbatim>\<open>open(path, "r")\<close> followed by \<^verbatim>\<open>fh.read()\<close>: the whole contents, or the error
  raised for a path that names no file.\<close>

definition open_read :: "filesystem \<Rightarrow> string \<Rightarrow> py_error + string" where
  "open_read fs path =
     (case fs path of None \<Rightarrow> Inl FileNotFoundError | Some contents \<Rightarrow> Inr contents)"

subsection \<open>\<^verbatim>\<open>str.replace\<close>\<close>

text \<open>
  Python's \<^verbatim>\<open>s.replace(old, new)\<close> scans \<open>s\<close> from the left; where \<open>old\<close> starts at the
  current position it emits \<open>new\<close> and continues after the occurrence, otherwise it emits
  the current character and moves one position on. \<open>replace_scan\<close> is that scan for a
  non-empty \<open>old\<close>: the occurrence found at \<open>c # cs\<close> has \<open>length old\<close> characters, the
  first of which is \<open>c\<close>, so the scan continues at \<open>drop (length old - 1) cs\<close>.
  For the empty \<open>old\<close> Python puts \<open>new\<close> before every character and at the end.
\<close>

fun replace_scan :: "'a list \<Rightarrow> 'a list \<Rightarrow> 'a list \<Rightarrow> 'a list" where
  "replace_scan old new [] = []"
| "replace_scan old new (c # cs) =
     (if prefix old (c # cs) then new @ replace_scan old new (drop (length old - 1) cs)
      else c # replace_scan old new cs)"

definition str_replace :: "'a list \<Rightarrow> 'a list \<Rightarrow> 'a list \<Rightarrow> 'a list" where
  "str_replace old new s =
     (if old = [] then new @ concat (map (\<lambda>c. c # new) s) else replace_scan old new s)"

definition link_old :: string where
  "link_old = ''](''"

definition link_new :: string where
  "link_new = ''](https://github.com/Kasekopf/Turbine/blob/master/''"

subsection \<open>The call of \<^verbatim>\<open>setuptools.setup\<close>\<close>

datatype py_value = Str string | StrList "string list"

type_synonym kwargs = "(string \<times> py_value) list"

text \<open>The keyword arguments of the call. \<open>long_description\<close> is the variable computed
  from the README; \<open>found_packages\<close> is what \<^verbatim>\<open>setuptools.find_packages()\<close> returns, which
  depends on the directory tree and is a parameter here.\<close>

definition setup_kwargs :: "string \<Rightarrow> string list \<Rightarrow> kwargs" where
  "setup_kwargs long_description found_packages =
    [(''name'', Str ''turbine''),
     (''version'', Str ''0.1.0''),
     (''author'', Str ''Jeffrey Dudek''),
     (''author_email'', Str ''jeffreydudek@gmail.com''),
     (''description'', Str ''A Python 3 tool to harness the google cloud to run shell scripts''),
     (''long_description'', Str long_description),
     (''long_description_content_type'', Str ''text/markdown''),
     (''url'', Str ''https://github.com/Kasekopf/Turbine''),
     (''packages'', StrList found_packages),
     (''license'', Str ''MIT''),
     (''platforms'', Str ''Posix; MacOS X; Windows''),
     (''install_requires'',
        StrList [''google-cloud-pubsub'', ''google-cloud-storage'', ''google-cloud-logging'',
                 ''google-api-python-client'']),
     (''python_requires'', Str ''>=3.6''),
     (''classifiers'',
        StrList [''Programming Language :: Python :: 3'',
                 ''License :: OSI Approved :: MIT License'',
                 ''Operating System :: OS Independent''])]"

subsection \<open>The script\<close>

text \<open>\<open>Inl e\<close>: the script stopped with \<open>e\<close> before it reached the call of
  \<^verbatim>\<open>setuptools.setup\<close>. \<open>Inr kw\<close>: the call was made, with the keyword arguments \<open>kw\<close>.\<close>

definition setup_py :: "filesystem \<Rightarrow> string list \<Rightarrow> py_error + kwargs" where
  "setup_py fs found_packages =
     (case open_read fs ''README.md'' of
        Inl e \<Rightarrow> Inl e
      | Inr contents \<Rightarrow>
          Inr (setup_kwargs (str_replace link_old link_new contents) found_packages))"

subsection \<open>Joining segments\<close>

text \<open>\<open>join_with sep segs\<close> is Python's \<^verbatim>\<open>sep.join(segs)\<close>: the segments in order, with
  \<open>sep\<close> between neighbours. It is used to say what "every occurrence replaced" means: a
  string cut at its occurrences of \<open>old\<close> and joined again with \<open>new\<close>.\<close>

fun join_with :: "'a list \<Rightarrow> 'a list list \<Rightarrow> 'a list" where
  "join_with sep [] = []"
| "join_with sep [g] = g"
| "join_with sep (g # h # gs) = g @ sep @ join_with sep (h # gs)"

section \<open>Properties of the scan\<close>

text \<open>A segment without an occurrence is copied unchanged.\<close>

lemma replace_scan_free:
  "\<not> sublist old g \<Longrightarrow> replace_scan old new g = g"
  by (induction g) (auto simp: sublist_Cons_right)

text \<open>For a two-character \<open>old\<close> whose characters differ, no occurrence can begin inside a
  segment and end in the separator after it, so the scan copies the segment and replaces
  the separator.\<close>

lemma replace_scan_segment:
  assumes "a \<noteq> b" and "\<not> sublist [a, b] g"
  shows "replace_scan [a, b] new (g @ [a, b] @ rest) = g @ new @ replace_scan [a, b] new rest"
  using assms(2)
proof (induction g)
  case Nil
  show ?case by simp
next
  case (Cons c cs)
  from Cons.prems have np: "\<not> prefix [a, b] (c # cs)" and ns: "\<not> sublist [a, b] cs"
    by (simp_all add: sublist_Cons_right)
  have "\<not> prefix [a, b] (c # cs @ [a, b] @ rest)"
  proof (cases cs)
    case Nil
    with assms(1) show ?thesis by auto
  next
    case (Cons d ds)
    with np show ?thesis by auto
  qed
  then have "replace_scan [a, b] new ((c # cs) @ [a, b] @ rest)
      = c # replace_scan [a, b] new (cs @ [a, b] @ rest)"
    by (simp only: append_Cons replace_scan.simps if_False)
  then show ?case using Cons.IH [OF ns] by simp
qed

lemma replace_scan_join:
  assumes "a \<noteq> b" and "sep = [a, b]"
  shows "\<forall>g\<in>set segs. \<not> sublist sep g \<Longrightarrow>
    replace_scan sep new (join_with sep segs) = join_with new segs"
  using assms(2)
proof (induction sep segs rule: join_with.induct)
  case 1
  show ?case by simp
next
  case (2 sep g)
  then show ?case by (simp add: replace_scan_free)
next
  case (3 sep g h gs)
  then show ?case using replace_scan_segment [OF assms(1), of g new] by simp
qed

text \<open>Every string is a join of segments without an occurrence.\<close>

lemma split_exists:
  assumes "old \<noteq> []"
  shows "\<exists>segs. segs \<noteq> [] \<and> s = join_with old segs \<and> (\<forall>g\<in>set segs. \<not> sublist old g)"
proof (induction "length s" arbitrary: s rule: less_induct)
  case less
  show ?case
  proof (cases s)
    case Nil
    have "[] = join_with old [[]]" by simp
    moreover have "\<forall>g\<in>set [[]]. \<not> sublist old g" using assms by simp
    ultimately show ?thesis unfolding Nil by blast
  next
    case (Cons c cs)
    show ?thesis
    proof (cases "prefix old (c # cs)")
      case True
      have "length (drop (length old - 1) cs) < length s" using Cons by simp
      from less [OF this] obtain segs where segs: "segs \<noteq> []"
        "drop (length old - 1) cs = join_with old segs" "\<forall>g\<in>set segs. \<not> sublist old g"
        by blast
      from True assms have "c # cs = old @ drop (length old - 1) cs"
        by (cases old) (auto simp: prefix_def)
      with segs have "c # cs = join_with old ([] # segs)"
        by (cases segs) simp_all
      moreover have "\<forall>g\<in>set ([] # segs). \<not> sublist old g" using segs assms by simp
      ultimately show ?thesis unfolding Cons by blast
    next
      case False
      have "length cs < length s" using Cons by simp
      from less [OF this] obtain segs where segs: "segs \<noteq> []"
        "cs = join_with old segs" "\<forall>g\<in>set segs. \<not> sublist old g"
        by blast
      then obtain g gs where ggs: "segs = g # gs" by (cases segs) auto
      have "c # cs = join_with old ((c # g) # gs)"
        using segs(2) ggs by (cases gs) simp_all
      moreover have "\<not> sublist old (c # g)"
      proof
        assume "sublist old (c # g)"
        then have "prefix old (c # g)" using segs(3) ggs by (simp add: sublist_Cons_right)
        moreover have "prefix (c # g) (c # cs)" using segs(2) ggs by (cases gs) simp_all
        ultimately show False using False by (meson prefix_order.trans)
      qed
      ultimately show ?thesis unfolding Cons using segs(3) ggs
        by (intro exI [of _ "(c # g) # gs"]) simp
    qed
  qed
qed

text \<open>A longer \<open>new\<close> makes the result longer, strictly so when something is replaced.\<close>

lemma replace_scan_length_ge:
  "old \<noteq> [] \<Longrightarrow> length old \<le> length new \<Longrightarrow> length s \<le> length (replace_scan old new s)"
proof (induction old new s rule: replace_scan.induct)
  case (1 old new)
  show ?case by simp
next
  case (2 old new c cs)
  show ?case
  proof (cases "prefix old (c # cs)")
    case True
    then have "length old \<le> Suc (length cs)" by (auto dest: prefix_length_le)
    moreover have "length (drop (length old - 1) cs)
        \<le> length (replace_scan old new (drop (length old - 1) cs))"
      using 2 True by simp
    ultimately show ?thesis using True "2.prems" by (cases old) simp_all
  next
    case False
    then show ?thesis using 2 by simp
  qed
qed

lemma replace_scan_length_gt:
  "old \<noteq> [] \<Longrightarrow> length old < length new \<Longrightarrow> sublist old s \<Longrightarrow>
     length s < length (replace_scan old new s)"
proof (induction old new s rule: replace_scan.induct)
  case (1 old new)
  then show ?case by simp
next
  case (2 old new c cs)
  show ?case
  proof (cases "prefix old (c # cs)")
    case True
    then have "length old \<le> Suc (length cs)" by (auto dest: prefix_length_le)
    moreover have "length (drop (length old - 1) cs)
        \<le> length (replace_scan old new (drop (length old - 1) cs))"
      using "2.prems" by (intro replace_scan_length_ge) simp_all
    ultimately show ?thesis using True "2.prems" by (cases old) simp_all
  next
    case False
    then have "sublist old cs" using "2.prems" by (simp add: sublist_Cons_right)
    then show ?thesis using 2 False by simp
  qed
qed

text \<open>When \<open>new\<close> itself contains \<open>old\<close>, a replaced string still contains \<open>old\<close>.\<close>

lemma replace_scan_keeps_occurrence:
  "sublist old new \<Longrightarrow> sublist old s \<Longrightarrow> sublist old (replace_scan old new s)"
proof (induction old new s rule: replace_scan.induct)
  case (1 old new)
  then show ?case by simp
next
  case (2 old new c cs)
  show ?case
  proof (cases "prefix old (c # cs)")
    case True
    then show ?thesis using "2.prems"(1) by (simp add: sublist_append)
  next
    case False
    then have "sublist old cs" using "2.prems" by (simp add: sublist_Cons_right)
    then show ?thesis using 2 False by (simp add: sublist_Cons_right)
  qed
qed

lemma link_old_in_link_new: "sublist link_old link_new"
  unfolding link_old_def link_new_def by (simp add: sublist_Cons_right)

lemma link_old_shape: "link_old = [CHR '']'', CHR ''(''] \<and> CHR '']'' \<noteq> CHR ''(''"
  by (simp add: link_old_def)

lemma str_replace_link: "str_replace link_old new s = replace_scan link_old new s"
  by (simp add: str_replace_def link_old_def)

section \<open>The declared metadata\<close>

text \<open>
  C1. The call of \<open>setup\<close> passes the name \<open>turbine\<close>, the version \<open>0.1.0\<close> and the
  license \<open>MIT\<close>, whatever the README holds and whatever packages are found.
\<close>

theorem setup_name_version_license:
  "map_of (setup_kwargs ld pkgs) ''name'' = Some (Str ''turbine'') \<and>
   map_of (setup_kwargs ld pkgs) ''version'' = Some (Str ''0.1.0'') \<and>
   map_of (setup_kwargs ld pkgs) ''license'' = Some (Str ''MIT'')"
  by (simp add: setup_kwargs_def)

text \<open>
  C2. The \<open>install_requires\<close> argument is a list of exactly four entries: the pub/sub,
  storage and logging clients of Google Cloud and the generic Google API client.
\<close>

theorem install_requires_four_clients:
  "\<exists>deps. map_of (setup_kwargs ld pkgs) ''install_requires'' = Some (StrList deps) \<and>
     length deps = 4 \<and>
     deps = [''google-cloud-pubsub'', ''google-cloud-storage'', ''google-cloud-logging'',
             ''google-api-python-client'']"
  by (simp add: setup_kwargs_def)

text \<open>
  C3. The call passes \<open>python_requires\<close> as \<open>>=3.6\<close> and \<open>platforms\<close> as
  \<open>Posix; MacOS X; Windows\<close>, and its classifiers include
  \<open>Operating System :: OS Independent\<close>.
\<close>

theorem runtime_version_and_platforms:
  "map_of (setup_kwargs ld pkgs) ''python_requires'' = Some (Str ''>=3.6'') \<and>
   map_of (setup_kwargs ld pkgs) ''platforms'' = Some (Str ''Posix; MacOS X; Windows'') \<and>
   (\<exists>cs. map_of (setup_kwargs ld pkgs) ''classifiers'' = Some (StrList cs) \<and>
      ''Operating System :: OS Independent'' \<in> set cs)"
  by (simp add: setup_kwargs_def)

text \<open>
  C4. The license argument and the license classifier agree: the license is \<open>MIT\<close>, and
  the only classifier under \<open>License ::\<close> is the OSI-approved classifier of that license,
  \<open>License :: OSI Approved :: MIT License\<close>.
\<close>

theorem license_matches_classifier:
  "\<exists>lic cs. map_of (setup_kwargs ld pkgs) ''license'' = Some (Str lic) \<and>
     map_of (setup_kwargs ld pkgs) ''classifiers'' = Some (StrList cs) \<and>
     lic = ''MIT'' \<and>
     filter (prefix ''License :: '') cs = [''License :: OSI Approved :: '' @ lic @ '' License''] \<and>
     ''License :: OSI Approved :: MIT License'' \<in> set cs"
  by (simp add: setup_kwargs_def)

text \<open>
  C5. The call passes the author \<open>Jeffrey Dudek\<close>, an author email, and the description
  \<open>A Python 3 tool to harness the google cloud to run shell scripts\<close>.
\<close>

theorem author_and_description:
  "map_of (setup_kwargs ld pkgs) ''author'' = Some (Str ''Jeffrey Dudek'') \<and>
   map_of (setup_kwargs ld pkgs) ''author_email'' = Some (Str ''jeffreydudek@gmail.com'') \<and>
   map_of (setup_kwargs ld pkgs) ''description'' =
     Some (Str ''A Python 3 tool to harness the google cloud to run shell scripts'')"
  by (simp add: setup_kwargs_def)

text \<open>
  C6. The keyword arguments of the call are exactly the fourteen of the source, and none
  of them is \<open>entry_points\<close> or \<open>scripts\<close>: the descriptor declares no command-line
  entry of any kind.
\<close>

theorem no_cli_surface:
  "map fst (setup_kwargs ld pkgs) =
     [''name'', ''version'', ''author'', ''author_email'', ''description'', ''long_description'',
      ''long_description_content_type'', ''url'', ''packages'', ''license'', ''platforms'',
      ''install_requires'', ''python_requires'', ''classifiers''] \<and>
   map_of (setup_kwargs ld pkgs) ''entry_points'' = None \<and>
   map_of (setup_kwargs ld pkgs) ''scripts'' = None \<and>
   map_of (setup_kwargs ld pkgs) ''console_scripts'' = None"
  by (simp add: setup_kwargs_def)

section \<open>The long description\<close>

text \<open>
  C7. For every contents \<open>s\<close> of \<^verbatim>\<open>README.md\<close> the call is made and its
  \<open>long_description\<close> is \<open>s\<close> with \<open>](\<close> replaced by the link prefix, a function of
  \<open>s\<close> alone. Every occurrence is replaced and nothing else changes: \<open>s\<close> is a join of
  segments free of \<open>](\<close> with \<open>](\<close> between them, and for each such way of cutting
  \<open>s\<close> the result is the same segments with the link prefix between them.
\<close>

theorem long_description_rewrites_links:
  assumes "fs ''README.md'' = Some s"
  shows "(\<exists>kw. setup_py fs pkgs = Inr kw \<and>
            map_of kw ''long_description'' = Some (Str (str_replace link_old link_new s))) \<and>
         (\<exists>segs. s = join_with link_old segs \<and> (\<forall>g\<in>set segs. \<not> sublist link_old g)) \<and>
         (\<forall>segs. s = join_with link_old segs \<and> (\<forall>g\<in>set segs. \<not> sublist link_old g) \<longrightarrow>
            str_replace link_old link_new s = join_with link_new segs)"
proof (intro conjI)
  show "\<exists>kw. setup_py fs pkgs = Inr kw \<and>
          map_of kw ''long_description'' = Some (Str (str_replace link_old link_new s))"
    using assms by (simp add: setup_py_def open_read_def setup_kwargs_def)
next
  have "link_old \<noteq> []" by (simp add: link_old_def)
  from split_exists [OF this, of s]
  show "\<exists>segs. s = join_with link_old segs \<and> (\<forall>g\<in>set segs. \<not> sublist link_old g)"
    by blast
next
  show "\<forall>segs. s = join_with link_old segs \<and> (\<forall>g\<in>set segs. \<not> sublist link_old g) \<longrightarrow>
          str_replace link_old link_new s = join_with link_new segs"
  proof (intro allI impI)
    fix segs
    assume h: "s = join_with link_old segs \<and> (\<forall>g\<in>set segs. \<not> sublist link_old g)"
    from link_old_shape have ne: "CHR '']'' \<noteq> CHR ''(''" and sh: "link_old = [CHR '']'', CHR ''('']"
      by simp_all
    from replace_scan_join [OF ne sh, of segs link_new] h
    show "str_replace link_old link_new s = join_with link_new segs"
      by (simp add: str_replace_link)
  qed
qed

theorem long_description_rewrites_links_witness:
  "[''README.md'' \<mapsto> ''[a](b)''] ''README.md'' = Some ''[a](b)'' \<and>
   setup_py [''README.md'' \<mapsto> ''[a](b)''] [] =
     Inr (setup_kwargs ''[a](https://github.com/Kasekopf/Turbine/blob/master/b)'' []) \<and>
   ''[a](b)'' = join_with link_old [''[a'', ''b)''] \<and>
   \<not> sublist link_old ''[a'' \<and> \<not> sublist link_old ''b)'' \<and>
   str_replace link_old link_new ''[a](b)'' =
     ''[a](https://github.com/Kasekopf/Turbine/blob/master/b)''"
proof -
  have h: "[''README.md'' \<mapsto> ''[a](b)''] ''README.md'' = Some ''[a](b)''" by simp
  have cut: "''[a](b)'' = join_with link_old [''[a'', ''b)'']"
    by (simp add: link_old_def)
  have free: "\<forall>g\<in>set [''[a'', ''b)'']. \<not> sublist link_old g"
    by (simp add: link_old_def sublist_Cons_right)
  from long_description_rewrites_links
      [of "[''README.md'' \<mapsto> ''[a](b)'']" "''[a](b)''" "[]"] h cut free
  have r: "str_replace link_old link_new ''[a](b)'' = join_with link_new [''[a'', ''b)'']"
    by blast
  then have r': "str_replace link_old link_new ''[a](b)'' =
      ''[a](https://github.com/Kasekopf/Turbine/blob/master/b)''"
    by (simp add: link_new_def)
  show ?thesis using h cut free r'
    by (simp add: setup_py_def open_read_def)
qed

text \<open>
  C8. The rewriting is not idempotent. When \<open>s\<close> contains \<open>](\<close>, the rewritten
  string contains it again, inside the inserted prefix, and rewriting a second time gives
  a string different from rewriting once.
\<close>

theorem link_rewrite_not_idempotent:
  assumes "sublist link_old s"
  shows "sublist link_old (str_replace link_old link_new s) \<and>
         str_replace link_old link_new (str_replace link_old link_new s)
           \<noteq> str_replace link_old link_new s"
proof -
  have ne: "link_old \<noteq> []" and lt: "length link_old < length link_new"
    by (simp_all add: link_old_def link_new_def)
  have again: "sublist link_old (replace_scan link_old link_new s)"
    using link_old_in_link_new assms by (rule replace_scan_keeps_occurrence)
  from replace_scan_length_gt [OF ne lt again]
  have "length (replace_scan link_old link_new (replace_scan link_old link_new s))
          \<noteq> length (replace_scan link_old link_new s)"
    by simp
  then have "replace_scan link_old link_new (replace_scan link_old link_new s)
          \<noteq> replace_scan link_old link_new s"
    by auto
  with again show ?thesis by (simp add: str_replace_link)
qed

theorem link_rewrite_not_idempotent_witness:
  "sublist link_old ''[a](b)'' \<and>
   str_replace link_old link_new (str_replace link_old link_new ''[a](b)'')
     \<noteq> str_replace link_old link_new ''[a](b)''"
proof -
  have h: "sublist link_old ''[a](b)''"
    by (simp add: link_old_def sublist_Cons_right)
  from link_rewrite_not_idempotent [OF h] h show ?thesis by blast
qed

section \<open>A missing README\<close>

text \<open>
  C9. The file is opened with no guard. When the working directory has no
  \<^verbatim>\<open>README.md\<close>, the script stops with \<open>FileNotFoundError\<close> and never reaches the call of
  \<open>setup\<close>, so no metadata is declared.
\<close>

theorem missing_readme_raises:
  assumes "fs ''README.md'' = None"
  shows "setup_py fs pkgs = Inl FileNotFoundError \<and> \<not> (\<exists>kw. setup_py fs pkgs = Inr kw)"
  using assms by (simp add: setup_py_def open_read_def)

theorem missing_readme_raises_witness:
  "(Map.empty :: filesystem) ''README.md'' = None \<and>
   setup_py Map.empty [''turbine''] = Inl FileNotFoundError \<and>
   \<not> (\<exists>kw. setup_py Map.empty [''turbine''] = Inr kw)"
proof -
  have h: "(Map.empty :: filesystem) ''README.md'' = None" by simp
  from missing_readme_raises [OF h, of "[''turbine'']"] h show ?thesis by blast
qed

end
